theory Spec2Isabelle
  imports Main "HOL-Library.Word"
begin

unbundle bit_operations_syntax

section \<open>The 24-hour clock firmware (src/main.c)\<close>

text \<open>
  The firmware runs on an ATtiny85 and drives a VID29 stepper motor from pins PB0..PB2.
  It has two pieces of code: the Timer 0 overflow interrupt handler, which keeps an
  accumulator of microseconds and raises the flag \<open>send_pulse\<close>, and \<open>main\<close>, which
  after a start-up sequence loops forever: when the flag is set it clears it and sends one
  cycle of the six motor states, then sleeps until the next interrupt.

  The peripheral set-up at the top of \<open>main\<close> (timer prescaler, interrupt mask, power
  reduction, pin directions, \<open>sei\<close>, the sleep mode) writes none of the variables modelled
  here and never writes PORTB; it is left out.
\<close>

subsection \<open>Data\<close>

type_synonym uint8_t = "8 word"
type_synonym uint64_t = "64 word"

text \<open>
  What the program does to the outside and to the shared flag is recorded, in program
  order, as a list of events: a write to PORTB, a call of \<open>_delay_us\<close> with its argument,
  a write to \<open>send_pulse\<close>, and a call of \<open>sleep_mode\<close>.
\<close>

datatype event =
    Port_write uint8_t
  | Delay_us nat
  | Flag_write uint8_t
  | Sleep

text \<open>
  The variables of the program: the file-scope flag \<open>send_pulse\<close>, the handler's static
  accumulator \<open>unaccounted_microseconds\<close>, and the output register PORTB. The field
  \<open>trace\<close> is the list of events so far.
\<close>

record mcu =
  send_pulse :: uint8_t
  unaccounted_microseconds :: uint64_t
  PORTB :: uint8_t
  trace :: "event list"

text \<open>Statics are zero-initialised by C; PORTB is 0 after reset.\<close>

definition power_on :: mcu where
  "power_on = \<lparr>send_pulse = 0, unaccounted_microseconds = 0, PORTB = 0, trace = []\<rparr>"

subsection \<open>Constants\<close>

definition PULSE_LENGTH :: nat where
  "PULSE_LENGTH = 3000"

text \<open>\<open>(6*80L*1000L*1000L)\<close>: 480,000,000 fits the 32-bit \<open>long\<close> of the AVR; in the
  handler it is converted to \<open>uint64_t\<close>.\<close>

definition MICROSECONDS_PER_PULSE :: uint64_t where
  "MICROSECONDS_PER_PULSE = 6 * 80 * 1000 * 1000"

text \<open>
  \<open>((1024L*256L/F_CPU)*1000000L)\<close>. The macro \<open>F_CPU\<close> is not defined in the source file:
  the build supplies it (the header comment names the board file attiny85_32khz.json and
  a low-frequency crystal, that is 32768 Hz). It is a parameter here. The value below is
  that of the C expression whenever \<open>F_CPU\<close> is positive and the product fits a \<open>long\<close>.
\<close>

definition MICROSECONDS_PER_INTERRUPT :: "int \<Rightarrow> int" where
  "MICROSECONDS_PER_INTERRUPT F_CPU = (1024 * 256 div F_CPU) * 1000000"

text \<open>Bit numbers of the port B pins, as in the pin map of the header comment, and
  the \<open>_BV\<close> macro of avr-libc (\<open>1 << bit\<close>).\<close>

definition PB0 :: nat where "PB0 = 0"
definition PB1 :: nat where "PB1 = 1"
definition PB2 :: nat where "PB2 = 2"

definition BV :: "nat \<Rightarrow> uint8_t" where
  "BV b = push_bit b 1"

definition pin_mask :: uint8_t where
  "pin_mask = BV PB0 OR BV PB1 OR BV PB2"

definition stateMap :: "uint8_t list" where
  "stateMap = [0x5, 0x1, 0x3, 0x2, 0x6, 0x4]"

subsection \<open>The interrupt handler\<close>

text \<open>
  \<open>ISR(TIMER0_OVF_vect)\<close>, with the values of the two macros as arguments \<open>tick\<close>
  (MICROSECONDS_PER_INTERRUPT) and \<open>target\<close> (MICROSECONDS_PER_PULSE). The addition and
  the subtraction are those of \<open>uint64_t\<close>: they wrap modulo \<open>2 ^ 64\<close>.
\<close>

definition timer0_ovf :: "uint64_t \<Rightarrow> uint64_t \<Rightarrow> mcu \<Rightarrow> mcu" where
  "timer0_ovf tick target s =
     (let s1 = s\<lparr>unaccounted_microseconds := unaccounted_microseconds s + tick\<rparr> in
      if unaccounted_microseconds s1 < target then s1
      else
        let s2 = s1\<lparr>unaccounted_microseconds := unaccounted_microseconds s1 - target\<rparr> in
        s2\<lparr>send_pulse := 1, trace := trace s2 @ [Flag_write 1]\<rparr>)"

text \<open>The handler as compiled: the target is the program's constant, the tick is the
  value of MICROSECONDS_PER_INTERRUPT.\<close>

definition isr :: "uint64_t \<Rightarrow> mcu \<Rightarrow> mcu" where
  "isr tick = timer0_ovf tick MICROSECONDS_PER_PULSE"

definition TIMER0_OVF_vect :: "int \<Rightarrow> mcu \<Rightarrow> mcu" where
  "TIMER0_OVF_vect F_CPU = isr (word_of_int (MICROSECONDS_PER_INTERRUPT F_CPU))"

text \<open>\<open>n\<close> timer overflows in a row.\<close>

primrec ticks :: "nat \<Rightarrow> uint64_t \<Rightarrow> uint64_t \<Rightarrow> mcu \<Rightarrow> mcu" where
  "ticks 0 tick target s = s"
| "ticks (Suc n) tick target s = timer0_ovf tick target (ticks n tick target s)"

text \<open>Whether the next invocation of the handler gets past the early return, that is,
  reaches \<open>send_pulse = 1\<close>.\<close>

definition fires :: "uint64_t \<Rightarrow> uint64_t \<Rightarrow> mcu \<Rightarrow> bool" where
  "fires tick target s = (\<not> unaccounted_microseconds s + tick < target)"

text \<open>The number of times the flag was set, read off the trace.\<close>

definition flag_sets :: "event list \<Rightarrow> nat" where
  "flag_sets evs = length (filter (\<lambda>e. e = Flag_write 1) evs)"

subsection \<open>The main program\<close>

definition write_PORTB :: "uint8_t \<Rightarrow> mcu \<Rightarrow> mcu" where
  "write_PORTB v s = s\<lparr>PORTB := v, trace := trace s @ [Port_write v]\<rparr>"

definition delay_us :: "nat \<Rightarrow> mcu \<Rightarrow> mcu" where
  "delay_us us s = s\<lparr>trace := trace s @ [Delay_us us]\<rparr>"

text \<open>\<open>for (int i=0 ; i<6; i++ ){ PORTB = stateMap[i]; _delay_us(PULSE_LENGTH); }\<close>,
  from the value \<open>i\<close> of the counter on. The index stays below the six entries of the
  table.\<close>

function send_states :: "nat \<Rightarrow> mcu \<Rightarrow> mcu" where
  "send_states i s =
     (if i < 6 then send_states (i + 1) (delay_us PULSE_LENGTH (write_PORTB (stateMap ! i) s))
      else s)"
  by pat_completeness auto
termination
  by (relation "measure (\<lambda>(i, s). 6 - i)") auto

declare send_states.simps [simp del]

text \<open>The loop followed by \<open>PORTB = 0\<close>: the block that occurs twice in \<open>main\<close>.\<close>

definition motor_cycle :: "mcu \<Rightarrow> mcu" where
  "motor_cycle s = write_PORTB 0 (send_states 0 s)"

text \<open>\<open>for (int j=0; j<180; j++){ ... }\<close>, from the value \<open>j\<close> of the counter on.\<close>

function startup_loop :: "nat \<Rightarrow> mcu \<Rightarrow> mcu" where
  "startup_loop j s = (if j < 180 then startup_loop (j + 1) (motor_cycle s) else s)"
  by pat_completeness auto
termination
  by (relation "measure (\<lambda>(j, s). 180 - j)") auto

declare startup_loop.simps [simp del]

definition startup :: "mcu \<Rightarrow> mcu" where
  "startup s = startup_loop 0 s"

text \<open>The \<open>if (send_pulse) { ... }\<close> statement of the main loop.\<close>

definition pulse_request :: "mcu \<Rightarrow> mcu" where
  "pulse_request s =
     (if send_pulse s \<noteq> 0
      then motor_cycle (s\<lparr>send_pulse := 0, trace := trace s @ [Flag_write 0]\<rparr>)
      else s)"

text \<open>
  \<open>sleep_mode()\<close> puts the processor into idle sleep; the timer overflow interrupt wakes
  it, the handler runs, and \<open>sleep_mode\<close> returns. The model takes the timer interrupt
  to arrive while the processor sleeps, once per sleep (the argument \<open>wake\<close> is the
  handler).
\<close>

definition enter_sleep :: "mcu \<Rightarrow> mcu" where
  "enter_sleep s = s\<lparr>trace := trace s @ [Sleep]\<rparr>"

definition sleep_mode :: "(mcu \<Rightarrow> mcu) \<Rightarrow> mcu \<Rightarrow> mcu" where
  "sleep_mode wake s = wake (enter_sleep s)"

text \<open>One pass through the body of \<open>while(1)\<close>.\<close>

definition loop_body :: "(mcu \<Rightarrow> mcu) \<Rightarrow> mcu \<Rightarrow> mcu" where
  "loop_body wake s = sleep_mode wake (pulse_request s)"

text \<open>\<open>while(1)\<close> never ends; \<open>main_loop wake n\<close> is its first \<open>n\<close> passes.\<close>

primrec main_loop :: "(mcu \<Rightarrow> mcu) \<Rightarrow> nat \<Rightarrow> mcu \<Rightarrow> mcu" where
  "main_loop wake 0 s = s"
| "main_loop wake (Suc n) s = main_loop wake n (loop_body wake s)"

text \<open>\<open>main\<close>, up to the end of pass \<open>n\<close> of its loop.\<close>

definition main :: "int \<Rightarrow> nat \<Rightarrow> mcu \<Rightarrow> mcu" where
  "main F_CPU n s = main_loop (TIMER0_OVF_vect F_CPU) n (startup s)"

subsection \<open>Reading traces\<close>

text \<open>The values written to PORTB, in order.\<close>

fun port_writes :: "event list \<Rightarrow> uint8_t list" where
  "port_writes [] = []"
| "port_writes (Port_write v # evs) = v # port_writes evs"
| "port_writes (e # evs) = port_writes evs"

text \<open>The events of sending the table entries \<open>cs\<close>: each is written and held.\<close>

fun phase_events :: "uint8_t list \<Rightarrow> event list" where
  "phase_events [] = []"
| "phase_events (c # cs) = Port_write c # Delay_us PULSE_LENGTH # phase_events cs"

definition cycle_events :: "event list" where
  "cycle_events = phase_events stateMap @ [Port_write 0]"

text \<open>How many phase codes were applied: the writes to PORTB of a value of the table.\<close>

definition phase_applications :: "event list \<Rightarrow> nat" where
  "phase_applications evs = length (filter (\<lambda>v. v \<in> set stateMap) (port_writes evs))"

text \<open>How many times \<open>main\<close> cleared the flag.\<close>

definition flag_clears :: "event list \<Rightarrow> nat" where
  "flag_clears evs = length (filter (\<lambda>e. e = Flag_write 0) evs)"

text \<open>The events before the first call of \<open>sleep_mode\<close>.\<close>

definition before_first_sleep :: "event list \<Rightarrow> event list" where
  "before_first_sleep evs = takeWhile (\<lambda>e. e \<noteq> Sleep) evs"

text \<open>The events before, and after, the first clearing of the flag.\<close>

definition before_clear :: "event list \<Rightarrow> event list" where
  "before_clear evs = takeWhile (\<lambda>e. e \<noteq> Flag_write 0) evs"

definition after_clear :: "event list \<Rightarrow> event list" where
  "after_clear evs = drop 1 (dropWhile (\<lambda>e. e \<noteq> Flag_write 0) evs)"

section \<open>The interrupt handler: lemmas\<close>

lemma unat_MPP: "unat MICROSECONDS_PER_PULSE = 480000000"
  by (simp add: MICROSECONDS_PER_PULSE_def)

lemma acc_add_no_wrap:
  assumes "tick \<le> MICROSECONDS_PER_PULSE" and "a < MICROSECONDS_PER_PULSE"
  shows "unat (a + tick) = unat a + unat tick"
proof -
  have "unat tick \<le> 480000000" "unat a < 480000000"
    using assms by (simp_all add: word_le_nat_alt word_less_nat_alt unat_MPP)
  then have "unat a + unat tick < 2 ^ LENGTH(64)" by simp
  then show ?thesis by (rule unat_add_lem [THEN iffD1])
qed

lemma timer0_ovf_quiet:
  "unaccounted_microseconds s + tick < target \<Longrightarrow>
   timer0_ovf tick target s = s\<lparr>unaccounted_microseconds := unaccounted_microseconds s + tick\<rparr>"
  by (simp add: timer0_ovf_def)

lemma timer0_ovf_pulse:
  "\<not> unaccounted_microseconds s + tick < target \<Longrightarrow>
   timer0_ovf tick target s =
     s\<lparr>unaccounted_microseconds := unaccounted_microseconds s + tick - target,
       send_pulse := 1, trace := trace s @ [Flag_write 1]\<rparr>"
  by (simp add: timer0_ovf_def)

lemma flag_sets_simps [simp]:
  "flag_sets [] = 0"
  "flag_sets (evs @ [Flag_write 1]) = Suc (flag_sets evs)"
  by (simp_all add: flag_sets_def)

lemma isr_below:
  assumes "tick \<le> MICROSECONDS_PER_PULSE" and "unaccounted_microseconds s < MICROSECONDS_PER_PULSE"
  shows "unaccounted_microseconds (isr tick s) < MICROSECONDS_PER_PULSE"
proof (cases "unaccounted_microseconds s + tick < MICROSECONDS_PER_PULSE")
  case True
  then show ?thesis by (simp add: isr_def timer0_ovf_quiet)
next
  case False
  let ?a = "unaccounted_microseconds s"
  have sum: "unat (?a + tick) = unat ?a + unat tick"
    using assms by (rule acc_add_no_wrap)
  have ge: "MICROSECONDS_PER_PULSE \<le> ?a + tick" using False by simp
  then have "unat (?a + tick - MICROSECONDS_PER_PULSE) = unat ?a + unat tick - 480000000"
    by (simp add: unat_sub sum unat_MPP)
  moreover have "unat ?a < 480000000" "unat tick \<le> 480000000"
    using assms by (simp_all add: word_le_nat_alt word_less_nat_alt unat_MPP)
  ultimately have "unat (?a + tick - MICROSECONDS_PER_PULSE) < 480000000" by simp
  then show ?thesis using False
    by (simp add: isr_def timer0_ovf_pulse word_less_nat_alt unat_MPP)
qed

lemma isr_account:
  assumes "tick \<le> MICROSECONDS_PER_PULSE" and "unaccounted_microseconds s < MICROSECONDS_PER_PULSE"
  shows "flag_sets (trace (isr tick s)) * 480000000 + unat (unaccounted_microseconds (isr tick s)) =
         flag_sets (trace s) * 480000000 + unat (unaccounted_microseconds s) + unat tick"
proof (cases "unaccounted_microseconds s + tick < MICROSECONDS_PER_PULSE")
  case True
  then show ?thesis using assms by (simp add: isr_def timer0_ovf_quiet acc_add_no_wrap)
next
  case False
  let ?a = "unaccounted_microseconds s"
  have sum: "unat (?a + tick) = unat ?a + unat tick"
    using assms by (rule acc_add_no_wrap)
  have ge: "MICROSECONDS_PER_PULSE \<le> ?a + tick" using False by simp
  then have ge': "480000000 \<le> unat ?a + unat tick"
    by (simp add: word_le_nat_alt sum unat_MPP)
  from ge have "unat (?a + tick - MICROSECONDS_PER_PULSE) = unat ?a + unat tick - 480000000"
    by (simp add: unat_sub sum unat_MPP)
  then show ?thesis using False ge'
    by (simp add: isr_def timer0_ovf_pulse)
qed


lemma isr_grows_by_tick:
  assumes "tick \<le> MICROSECONDS_PER_PULSE" and "unaccounted_microseconds s < MICROSECONDS_PER_PULSE"
  shows "unat (unaccounted_microseconds (isr tick s)) \<le> unat (unaccounted_microseconds s) + unat tick"
proof -
  have "flag_sets (trace s) \<le> flag_sets (trace (isr tick s))"
    by (simp add: isr_def timer0_ovf_def Let_def)
  then show ?thesis using isr_account [OF assms] by simp
qed

lemma ticks_Suc_shift:
  "ticks (Suc n) tick target s = ticks n tick target (timer0_ovf tick target s)"
  by (induction n) simp_all

lemma ticks_add:
  "ticks (m + n) tick target s = ticks m tick target (ticks n tick target s)"
  by (induction m) simp_all

lemma ticks_below:
  assumes "tick \<le> MICROSECONDS_PER_PULSE" and "unaccounted_microseconds s < MICROSECONDS_PER_PULSE"
  shows "unaccounted_microseconds (ticks n tick MICROSECONDS_PER_PULSE s) < MICROSECONDS_PER_PULSE"
proof (induction n)
  case 0
  show ?case using assms(2) by simp
next
  case (Suc n)
  from isr_below [OF assms(1) Suc.IH] show ?case by (simp add: isr_def)
qed

lemma ticks_account:
  assumes "tick \<le> MICROSECONDS_PER_PULSE" and "unaccounted_microseconds s < MICROSECONDS_PER_PULSE"
  shows "flag_sets (trace (ticks n tick MICROSECONDS_PER_PULSE s)) * 480000000 +
           unat (unaccounted_microseconds (ticks n tick MICROSECONDS_PER_PULSE s)) =
         flag_sets (trace s) * 480000000 + unat (unaccounted_microseconds s) + n * unat tick"
proof (induction n)
  case 0
  show ?case by simp
next
  case (Suc n)
  from isr_account [OF assms(1) ticks_below [OF assms], of n] Suc.IH
  show ?case by (simp add: isr_def)
qed

lemma ticks_grow:
  assumes "tick \<le> MICROSECONDS_PER_PULSE" and "unaccounted_microseconds s < MICROSECONDS_PER_PULSE"
  shows "unat (unaccounted_microseconds (ticks n tick MICROSECONDS_PER_PULSE s)) \<le>
         unat (unaccounted_microseconds s) + n * unat tick"
proof (induction n)
  case 0
  show ?case by simp
next
  case (Suc n)
  from isr_grows_by_tick [OF assms(1) ticks_below [OF assms], of n] Suc.IH
  show ?case by (simp add: isr_def)
qed

lemma ticks_flag_sets_mono:
  "flag_sets (trace s) \<le> flag_sets (trace (ticks n tick target s))"
proof (induction n)
  case 0
  show ?case by simp
next
  case (Suc n)
  have "flag_sets (trace (ticks n tick target s)) \<le>
        flag_sets (trace (timer0_ovf tick target (ticks n tick target s)))"
    by (simp add: timer0_ovf_def Let_def)
  with Suc.IH show ?case by simp
qed

lemma zero_below_MPP: "(0 :: uint64_t) < MICROSECONDS_PER_PULSE"
  by (simp add: MICROSECONDS_PER_PULSE_def)

text \<open>
  Claim C1. Start with the accumulator at zero and let the handler run \<open>N\<close> times.
  The number of times it sets the flag is \<open>N * tick\<close> divided by the target interval,
  rounded down; so \<open>N * tick / target\<close> lies between that number and that number plus
  one, for every \<open>N\<close>. This is for every value \<open>tick\<close> of MICROSECONDS_PER_INTERRUPT
  that is at most MICROSECONDS_PER_PULSE, which covers every clock frequency from 546 Hz
  up, the 32768 Hz crystal among them.
\<close>
theorem rate_convergence:
  assumes "tick \<le> MICROSECONDS_PER_PULSE" and "unaccounted_microseconds s = 0"
  shows "flag_sets (trace (ticks N tick MICROSECONDS_PER_PULSE s)) =
           flag_sets (trace s) + (N * unat tick) div unat MICROSECONDS_PER_PULSE
         \<and> (flag_sets (trace (ticks N tick MICROSECONDS_PER_PULSE s)) - flag_sets (trace s))
               * unat MICROSECONDS_PER_PULSE \<le> N * unat tick
         \<and> N * unat tick <
             (flag_sets (trace (ticks N tick MICROSECONDS_PER_PULSE s)) - flag_sets (trace s) + 1)
               * unat MICROSECONDS_PER_PULSE"
proof -
  let ?s' = "ticks N tick MICROSECONDS_PER_PULSE s"
  let ?k = "flag_sets (trace ?s')" and ?j = "flag_sets (trace s)"
  let ?r = "unat (unaccounted_microseconds ?s')"
  have below0: "unaccounted_microseconds s < MICROSECONDS_PER_PULSE"
    using assms(2) zero_below_MPP by simp
  have r: "?r < 480000000"
    using ticks_below [OF assms(1) below0, of N] by (simp add: word_less_nat_alt unat_MPP)
  have acct: "?k * 480000000 + ?r = ?j * 480000000 + N * unat tick"
  proof -
    have "unat (unaccounted_microseconds s) = 0" using assms(2) by simp
    with ticks_account [OF assms(1) below0, of N] show ?thesis by linarith
  qed
  have k0: "?j \<le> ?k" by (rule ticks_flag_sets_mono)
  then obtain d where d: "?k = ?j + d" using le_Suc_ex by blast
  from acct d have split: "N * unat tick = d * 480000000 + ?r"
    by (simp add: algebra_simps)
  with r have "(N * unat tick) div 480000000 = d" by simp
  with d split r show ?thesis by (simp add: unat_MPP)
qed

theorem rate_convergence_witness:
  "word_of_int (MICROSECONDS_PER_INTERRUPT 32768) \<le> MICROSECONDS_PER_PULSE
   \<and> unaccounted_microseconds power_on = 0
   \<and> flag_sets (trace (ticks 120 (word_of_int (MICROSECONDS_PER_INTERRUPT 32768))
         MICROSECONDS_PER_PULSE power_on)) = 2
   \<and> (\<forall>N. flag_sets (trace (ticks N (word_of_int (MICROSECONDS_PER_INTERRUPT 32768))
         MICROSECONDS_PER_PULSE power_on)) = N * 8000000 div 480000000)"
proof -
  let ?t = "word_of_int (MICROSECONDS_PER_INTERRUPT 32768) :: uint64_t"
  have t: "?t = 8000000" by (simp add: MICROSECONDS_PER_INTERRUPT_def)
  have le: "?t \<le> MICROSECONDS_PER_PULSE" by (simp add: t MICROSECONDS_PER_PULSE_def)
  have z: "unaccounted_microseconds power_on = 0" by (simp add: power_on_def)
  have e: "trace power_on = []" by (simp add: power_on_def)
  have "flag_sets (trace (ticks N ?t MICROSECONDS_PER_PULSE power_on)) =
      N * 8000000 div 480000000" for N
    using rate_convergence [OF le z, of N] by (simp add: e t unat_MPP)
  then show ?thesis using le z by simp
qed

text \<open>
  Claim C2. With a tick period at most the target interval, every state reached from a
  zero accumulator by running the handler any number of times has
  \<open>0 \<le> unaccounted_microseconds < MICROSECONDS_PER_PULSE\<close>.
\<close>
theorem accumulator_invariant:
  assumes "tick \<le> MICROSECONDS_PER_PULSE" and "unaccounted_microseconds s = 0"
  shows "0 \<le> unat (unaccounted_microseconds (ticks n tick MICROSECONDS_PER_PULSE s))
         \<and> unaccounted_microseconds (ticks n tick MICROSECONDS_PER_PULSE s) < MICROSECONDS_PER_PULSE
         \<and> unat (unaccounted_microseconds (ticks n tick MICROSECONDS_PER_PULSE s)) < 480000000"
proof -
  have "unaccounted_microseconds s < MICROSECONDS_PER_PULSE"
    using assms(2) zero_below_MPP by simp
  from ticks_below [OF assms(1) this, of n] show ?thesis
    by (simp add: word_less_nat_alt unat_MPP)
qed

theorem accumulator_invariant_witness:
  "word_of_int (MICROSECONDS_PER_INTERRUPT 32768) \<le> MICROSECONDS_PER_PULSE
   \<and> unaccounted_microseconds power_on = 0
   \<and> unaccounted_microseconds (ticks 60 (word_of_int (MICROSECONDS_PER_INTERRUPT 32768))
         MICROSECONDS_PER_PULSE power_on) < MICROSECONDS_PER_PULSE"
  using accumulator_invariant [of "word_of_int (MICROSECONDS_PER_INTERRUPT 32768)" power_on 60]
  by (simp add: MICROSECONDS_PER_INTERRUPT_def MICROSECONDS_PER_PULSE_def power_on_def)

text \<open>
  Claim C9. With a tick period at most the target interval, in every state reached from
  a zero accumulator the sum of the accumulator and the tick, taken in the natural
  numbers, is below \<open>2 ^ 64\<close>, so the 64-bit addition does not wrap; and whenever the
  handler goes on to subtract, the sum is at least MICROSECONDS_PER_PULSE, so the
  subtraction does not go below zero and the new accumulator is the exact difference.
\<close>
theorem accumulator_never_wraps:
  assumes "tick \<le> MICROSECONDS_PER_PULSE" and "unaccounted_microseconds s = 0"
  shows "unat (unaccounted_microseconds (ticks n tick MICROSECONDS_PER_PULSE s)) + unat tick < 2 ^ 64
         \<and> (fires tick MICROSECONDS_PER_PULSE (ticks n tick MICROSECONDS_PER_PULSE s) \<longrightarrow>
              unat MICROSECONDS_PER_PULSE \<le>
                unat (unaccounted_microseconds (ticks n tick MICROSECONDS_PER_PULSE s)) + unat tick
              \<and> unat (unaccounted_microseconds (ticks (Suc n) tick MICROSECONDS_PER_PULSE s)) =
                unat (unaccounted_microseconds (ticks n tick MICROSECONDS_PER_PULSE s)) + unat tick
                  - unat MICROSECONDS_PER_PULSE)"
proof -
  let ?a = "unaccounted_microseconds (ticks n tick MICROSECONDS_PER_PULSE s)"
  have "unaccounted_microseconds s < MICROSECONDS_PER_PULSE"
    using assms(2) zero_below_MPP by simp
  from ticks_below [OF assms(1) this, of n]
  have below: "?a < MICROSECONDS_PER_PULSE" .
  then have a: "unat ?a < 480000000" by (simp add: word_less_nat_alt unat_MPP)
  have t: "unat tick \<le> 480000000" using assms(1) by (simp add: word_le_nat_alt unat_MPP)
  have sum: "unat (?a + tick) = unat ?a + unat tick"
    using assms(1) below by (rule acc_add_no_wrap)
  have no_wrap: "unat ?a + unat tick < 2 ^ 64" using a t by simp
  have no_underflow: "unat MICROSECONDS_PER_PULSE \<le> unat ?a + unat tick
      \<and> unat (unaccounted_microseconds (ticks (Suc n) tick MICROSECONDS_PER_PULSE s)) =
          unat ?a + unat tick - unat MICROSECONDS_PER_PULSE"
    if f: "fires tick MICROSECONDS_PER_PULSE (ticks n tick MICROSECONDS_PER_PULSE s)"
  proof -
    from f have ge: "MICROSECONDS_PER_PULSE \<le> ?a + tick" by (simp add: fires_def)
    then have "unat MICROSECONDS_PER_PULSE \<le> unat ?a + unat tick"
      by (simp add: word_le_nat_alt sum)
    moreover from ge have "unat (?a + tick - MICROSECONDS_PER_PULSE) =
        unat ?a + unat tick - unat MICROSECONDS_PER_PULSE"
      by (simp add: unat_sub sum)
    moreover from f have "unaccounted_microseconds (ticks (Suc n) tick MICROSECONDS_PER_PULSE s) =
        ?a + tick - MICROSECONDS_PER_PULSE"
      by (simp add: fires_def timer0_ovf_pulse)
    ultimately show ?thesis by simp
  qed
  from no_wrap no_underflow show ?thesis by blast
qed

theorem accumulator_never_wraps_witness:
  "word_of_int (MICROSECONDS_PER_INTERRUPT 32768) \<le> MICROSECONDS_PER_PULSE
   \<and> unaccounted_microseconds power_on = 0
   \<and> fires (word_of_int (MICROSECONDS_PER_INTERRUPT 32768)) MICROSECONDS_PER_PULSE
       (ticks 59 (word_of_int (MICROSECONDS_PER_INTERRUPT 32768)) MICROSECONDS_PER_PULSE power_on)
   \<and> unat (unaccounted_microseconds
       (ticks 60 (word_of_int (MICROSECONDS_PER_INTERRUPT 32768)) MICROSECONDS_PER_PULSE power_on)) = 0"
proof -
  let ?t = "word_of_int (MICROSECONDS_PER_INTERRUPT 32768) :: uint64_t"
  have t: "?t = 8000000" by (simp add: MICROSECONDS_PER_INTERRUPT_def)
  have le: "?t \<le> MICROSECONDS_PER_PULSE" by (simp add: t MICROSECONDS_PER_PULSE_def)
  have z: "unaccounted_microseconds power_on = 0" by (simp add: power_on_def)
  have s59: "ticks 59 ?t MICROSECONDS_PER_PULSE power_on =
      power_on\<lparr>unaccounted_microseconds := 472000000\<rparr>"
    unfolding t by code_simp
  have f: "fires ?t MICROSECONDS_PER_PULSE (ticks 59 ?t MICROSECONDS_PER_PULSE power_on)"
    unfolding s59 by (simp add: t fires_def MICROSECONDS_PER_PULSE_def power_on_def)
  have s60: "ticks 60 ?t MICROSECONDS_PER_PULSE power_on = ticks (Suc 59) ?t MICROSECONDS_PER_PULSE power_on"
    by simp
  from accumulator_never_wraps [OF le z, of 59] f
  have "unat (unaccounted_microseconds (ticks (Suc 59) ?t MICROSECONDS_PER_PULSE power_on)) = 0"
    unfolding s59 by (simp add: t MICROSECONDS_PER_PULSE_def power_on_def)
  with le z f s60 show ?thesis by simp
qed

text \<open>
  Claim C3. One invocation of the handler adds the tick to the accumulator. If the sum is
  below the target, nothing else changes: the flag and the trace are as before. If the
  sum has reached the target (and did not pass \<open>2 ^ 64\<close>), the accumulator becomes the
  sum minus the target, not zero, and the flag is set to 1. The handler never touches
  PORTB. With tick 32 and target 100, starting from zero: the accumulator is 32, 64, 96
  after the first three ticks with no pulse, and the fourth tick sets the flag and leaves
  28.
\<close>
theorem handler_step:
  "(unat (unaccounted_microseconds s) + unat tick < unat target \<longrightarrow>
      unat (unaccounted_microseconds (timer0_ovf tick target s)) =
        unat (unaccounted_microseconds s) + unat tick
      \<and> send_pulse (timer0_ovf tick target s) = send_pulse s
      \<and> trace (timer0_ovf tick target s) = trace s)
   \<and> (unat target \<le> unat (unaccounted_microseconds s) + unat tick
       \<and> unat (unaccounted_microseconds s) + unat tick < 2 ^ 64 \<longrightarrow>
      unat (unaccounted_microseconds (timer0_ovf tick target s)) =
        unat (unaccounted_microseconds s) + unat tick - unat target
      \<and> send_pulse (timer0_ovf tick target s) = 1
      \<and> trace (timer0_ovf tick target s) = trace s @ [Flag_write 1])
   \<and> PORTB (timer0_ovf tick target s) = PORTB s
   \<and> map (\<lambda>n. (unat (unaccounted_microseconds (ticks n 32 100 power_on)),
                 send_pulse (ticks n 32 100 power_on),
                 fires 32 100 (ticks (n - 1) 32 100 power_on))) [1, 2, 3, 4] =
       [(32, 0, False), (64, 0, False), (96, 0, False), (28, 1, True)]"
proof -
  let ?a = "unaccounted_microseconds s"
  have quiet: "unat (unaccounted_microseconds (timer0_ovf tick target s)) = unat ?a + unat tick
      \<and> send_pulse (timer0_ovf tick target s) = send_pulse s
      \<and> trace (timer0_ovf tick target s) = trace s"
    if lt: "unat ?a + unat tick < unat target"
  proof -
    have "unat target < 2 ^ LENGTH(64)" by (rule unsigned_less)
    with lt have "unat ?a + unat tick < 2 ^ LENGTH(64)" by linarith
    then have sum: "unat (?a + tick) = unat ?a + unat tick"
      by (rule unat_add_lem [THEN iffD1])
    with lt have "?a + tick < target" by (simp add: word_less_nat_alt)
    then show ?thesis by (simp add: timer0_ovf_quiet sum)
  qed
  have pulse: "unat (unaccounted_microseconds (timer0_ovf tick target s)) =
        unat ?a + unat tick - unat target
      \<and> send_pulse (timer0_ovf tick target s) = 1
      \<and> trace (timer0_ovf tick target s) = trace s @ [Flag_write 1]"
    if ge: "unat target \<le> unat ?a + unat tick" and nw: "unat ?a + unat tick < 2 ^ 64"
  proof -
    from nw have "unat ?a + unat tick < 2 ^ LENGTH(64)" by simp
    then have sum: "unat (?a + tick) = unat ?a + unat tick"
      by (rule unat_add_lem [THEN iffD1])
    with ge have le: "target \<le> ?a + tick" by (simp add: word_le_nat_alt)
    then have "\<not> ?a + tick < target" by simp
    then have "timer0_ovf tick target s =
        s\<lparr>unaccounted_microseconds := ?a + tick - target,
          send_pulse := 1, trace := trace s @ [Flag_write 1]\<rparr>"
      by (rule timer0_ovf_pulse)
    moreover from le have "unat (?a + tick - target) = unat ?a + unat tick - unat target"
      by (simp add: unat_sub sum)
    ultimately show ?thesis by simp
  qed
  have port: "PORTB (timer0_ovf tick target s) = PORTB s"
    by (simp add: timer0_ovf_def Let_def)
  have scenario: "map (\<lambda>n. (unat (unaccounted_microseconds (ticks n 32 100 power_on)),
                 send_pulse (ticks n 32 100 power_on),
                 fires 32 100 (ticks (n - 1) 32 100 power_on))) [1, 2, 3, 4] =
       [(32, 0, False), (64, 0, False), (96, 0, False), (28, 1, True)]"
    by code_simp
  from quiet pulse port scenario show ?thesis by blast
qed

theorem handler_step_witness:
  "unat (unaccounted_microseconds (power_on\<lparr>unaccounted_microseconds := 96\<rparr>)) + unat (32 :: uint64_t)
     < 2 ^ 64
   \<and> unat (100 :: uint64_t) \<le>
       unat (unaccounted_microseconds (power_on\<lparr>unaccounted_microseconds := 96\<rparr>)) + unat (32 :: uint64_t)
   \<and> unat (unaccounted_microseconds
        (timer0_ovf 32 100 (power_on\<lparr>unaccounted_microseconds := 96\<rparr>))) = 28
   \<and> send_pulse (timer0_ovf 32 100 (power_on\<lparr>unaccounted_microseconds := 96\<rparr>)) = 1
   \<and> unat (unaccounted_microseconds power_on) + unat (32 :: uint64_t) < unat (100 :: uint64_t)
   \<and> unat (unaccounted_microseconds (timer0_ovf 32 100 power_on)) = 32
   \<and> send_pulse (timer0_ovf 32 100 power_on) = send_pulse power_on"
  using handler_step [of "power_on\<lparr>unaccounted_microseconds := 96\<rparr>" 32 100]
    handler_step [of power_on 32 100]
  by (simp add: power_on_def)

lemma ticks_divisible:
  assumes "unat tick dvd 480000000" and "tick \<le> MICROSECONDS_PER_PULSE"
    and "unaccounted_microseconds s = 0"
  shows "unat tick dvd unat (unaccounted_microseconds (ticks n tick MICROSECONDS_PER_PULSE s))"
proof -
  let ?s' = "ticks n tick MICROSECONDS_PER_PULSE s"
  have below0: "unaccounted_microseconds s < MICROSECONDS_PER_PULSE"
    using assms(3) zero_below_MPP by simp
  have "unat (unaccounted_microseconds s) = 0" using assms(3) by simp
  with ticks_account [OF assms(2) below0, of n]
  have "flag_sets (trace ?s') * 480000000 + unat (unaccounted_microseconds ?s') =
        flag_sets (trace s) * 480000000 + n * unat tick"
    by linarith
  moreover have "unat tick dvd flag_sets (trace ?s') * 480000000"
    and "unat tick dvd flag_sets (trace s) * 480000000 + n * unat tick"
    using assms(1) by simp_all
  ultimately show ?thesis
    by (metis dvd_add_right_iff)
qed

text \<open>
  Claim C4, as amended. With a tick period at most the target interval, starting from a
  zero accumulator: if invocation \<open>i + 1\<close> and a later invocation \<open>j + 1\<close> both set the
  flag, the ticks between them, \<open>(j - i) * tick\<close>, add up to more than the target
  interval minus one tick; and when the tick divides the target interval exactly, as
  8,000,000 divides 480,000,000, they add up to at least the target interval.
\<close>
theorem pulse_separation:
  assumes tick: "tick \<le> MICROSECONDS_PER_PULSE"
    and zero: "unaccounted_microseconds s = 0"
    and order: "i < j"
    and first: "fires tick MICROSECONDS_PER_PULSE (ticks i tick MICROSECONDS_PER_PULSE s)"
    and second: "fires tick MICROSECONDS_PER_PULSE (ticks j tick MICROSECONDS_PER_PULSE s)"
  shows "unat MICROSECONDS_PER_PULSE < (j - i) * unat tick + unat tick
         \<and> (unat tick dvd unat MICROSECONDS_PER_PULSE \<longrightarrow>
              unat MICROSECONDS_PER_PULSE \<le> (j - i) * unat tick)"
proof -
  let ?T = MICROSECONDS_PER_PULSE
  let ?si = "ticks i tick ?T s"
  let ?a = "unaccounted_microseconds ?si"
  let ?s1 = "timer0_ovf tick ?T ?si"
  let ?b = "unaccounted_microseconds ?s1"
  obtain d where j: "j = Suc d + i" and d: "j - i = Suc d"
    using order by (metis add.commute add_Suc_right less_iff_Suc_add diff_add_inverse)
  have below0: "unaccounted_microseconds s < ?T"
    using zero zero_below_MPP by simp
  have a_below: "?a < ?T" by (rule ticks_below [OF tick below0])
  have a_lt: "unat ?a < 480000000"
    using a_below by (simp add: word_less_nat_alt unat_MPP)
  have sum: "unat (?a + tick) = unat ?a + unat tick"
    using tick a_below by (rule acc_add_no_wrap)
  from first have ge: "?T \<le> ?a + tick" by (simp add: fires_def)
  then have ge_nat: "480000000 \<le> unat ?a + unat tick"
    by (simp add: word_le_nat_alt sum unat_MPP)
  have b_eq: "unat ?b = unat ?a + unat tick - 480000000"
    using first ge by (simp add: fires_def timer0_ovf_pulse unat_sub sum unat_MPP)
  have b_below: "?b < ?T"
    using isr_below [OF tick a_below] by (simp add: isr_def)
  have sj: "ticks j tick ?T s = ticks d tick ?T ?s1"
    unfolding j by (simp only: ticks_add ticks_Suc_shift)
  let ?c = "unaccounted_microseconds (ticks d tick ?T ?s1)"
  have c_le: "unat ?c \<le> unat ?b + d * unat tick"
    by (rule ticks_grow [OF tick b_below])
  have c_below: "?c < ?T" by (rule ticks_below [OF tick b_below])
  have sum_c: "unat (?c + tick) = unat ?c + unat tick"
    using tick c_below by (rule acc_add_no_wrap)
  from second have "?T \<le> ?c + tick" by (simp add: fires_def sj)
  then have c_ge: "480000000 \<le> unat ?c + unat tick"
    by (simp add: word_le_nat_alt sum_c unat_MPP)
  have "480000000 < (unat tick + d * unat tick) + unat tick"
    using c_ge c_le b_eq a_lt ge_nat by linarith
  then have loose: "480000000 < Suc d * unat tick + unat tick" by simp
  have tight: "480000000 \<le> Suc d * unat tick" if dv: "unat tick dvd 480000000"
  proof -
    have "unat tick dvd unat ?a"
      by (rule ticks_divisible [OF dv tick zero])
    then obtain k where k: "unat ?a = unat tick * k" ..
    from dv obtain m where m: "480000000 = unat tick * m" ..
    have "unat tick * k < unat tick * m" by (metis a_lt k m)
    then have "k < m" by simp
    then have "Suc k \<le> m" by simp
    then have "unat tick * Suc k \<le> unat tick * m" by (rule mult_le_mono2)
    then have "unat tick * k + unat tick \<le> unat tick * m" by simp
    then have "unat ?a + unat tick \<le> 480000000" by (metis k m)
    with b_eq have "unat ?b = 0" by simp
    with c_le c_ge have "480000000 \<le> unat tick + d * unat tick" by linarith
    then show ?thesis by simp
  qed
  from loose tight show ?thesis by (simp add: d unat_MPP)
qed

theorem pulse_separation_witness:
  "word_of_int (MICROSECONDS_PER_INTERRUPT 32768) \<le> MICROSECONDS_PER_PULSE
   \<and> unaccounted_microseconds power_on = 0
   \<and> (59 :: nat) < 119
   \<and> fires (word_of_int (MICROSECONDS_PER_INTERRUPT 32768)) MICROSECONDS_PER_PULSE
       (ticks 59 (word_of_int (MICROSECONDS_PER_INTERRUPT 32768)) MICROSECONDS_PER_PULSE power_on)
   \<and> fires (word_of_int (MICROSECONDS_PER_INTERRUPT 32768)) MICROSECONDS_PER_PULSE
       (ticks 119 (word_of_int (MICROSECONDS_PER_INTERRUPT 32768)) MICROSECONDS_PER_PULSE power_on)
   \<and> unat (word_of_int (MICROSECONDS_PER_INTERRUPT 32768) :: uint64_t) dvd unat MICROSECONDS_PER_PULSE
   \<and> unat MICROSECONDS_PER_PULSE \<le>
       (119 - 59) * unat (word_of_int (MICROSECONDS_PER_INTERRUPT 32768) :: uint64_t)"
proof -
  let ?t = "word_of_int (MICROSECONDS_PER_INTERRUPT 32768) :: uint64_t"
  have t: "?t = 8000000" by (simp add: MICROSECONDS_PER_INTERRUPT_def)
  have le: "?t \<le> MICROSECONDS_PER_PULSE" by (simp add: t MICROSECONDS_PER_PULSE_def)
  have z: "unaccounted_microseconds power_on = 0" by (simp add: power_on_def)
  have f1: "fires ?t MICROSECONDS_PER_PULSE (ticks 59 ?t MICROSECONDS_PER_PULSE power_on)"
    unfolding t by code_simp
  have f2: "fires ?t MICROSECONDS_PER_PULSE (ticks 119 ?t MICROSECONDS_PER_PULSE power_on)"
    unfolding t by code_simp
  have dv: "unat ?t dvd unat MICROSECONDS_PER_PULSE"
    by (simp add: t MICROSECONDS_PER_PULSE_def)
  have o: "(59 :: nat) < 119" by simp
  from pulse_separation [OF le z o f1 f2] dv
  have "unat MICROSECONDS_PER_PULSE \<le> (119 - 59) * unat ?t" by blast
  with le z o f1 f2 dv show ?thesis by blast
qed

text \<open>
  Claim C4 as stated, with at least the whole target interval between two flag settings,
  fails when the tick does not divide the target. With a tick of 479,000,000 (the value
  of the macro at a clock of 547 Hz) the first invocation sets nothing, the second and
  the third both set the flag, and one tick lies between them: 479,000,000 is less than
  480,000,000.
\<close>

theorem pulse_separation_counterexample:
  "(479000000 :: uint64_t) \<le> MICROSECONDS_PER_PULSE
   \<and> word_of_int (MICROSECONDS_PER_INTERRUPT 547) = (479000000 :: uint64_t)
   \<and> unaccounted_microseconds power_on = 0
   \<and> trace (ticks 1 479000000 MICROSECONDS_PER_PULSE power_on) = []
   \<and> fires 479000000 MICROSECONDS_PER_PULSE (ticks 1 479000000 MICROSECONDS_PER_PULSE power_on)
   \<and> trace (ticks 2 479000000 MICROSECONDS_PER_PULSE power_on) = [Flag_write 1]
   \<and> fires 479000000 MICROSECONDS_PER_PULSE (ticks 2 479000000 MICROSECONDS_PER_PULSE power_on)
   \<and> trace (ticks 3 479000000 MICROSECONDS_PER_PULSE power_on) = [Flag_write 1, Flag_write 1]
   \<and> (2 - 1) * unat (479000000 :: uint64_t) < unat MICROSECONDS_PER_PULSE"
proof -
  have "trace (ticks 1 479000000 MICROSECONDS_PER_PULSE power_on) = []"
    and "trace (ticks 2 479000000 MICROSECONDS_PER_PULSE power_on) = [Flag_write 1]"
    and "trace (ticks 3 479000000 MICROSECONDS_PER_PULSE power_on) = [Flag_write 1, Flag_write 1]"
    by code_simp+
  moreover
  have "fires 479000000 MICROSECONDS_PER_PULSE (ticks 1 479000000 MICROSECONDS_PER_PULSE power_on)"
    and "fires 479000000 MICROSECONDS_PER_PULSE (ticks 2 479000000 MICROSECONDS_PER_PULSE power_on)"
    by code_simp+
  ultimately show ?thesis
    by (simp add: MICROSECONDS_PER_PULSE_def MICROSECONDS_PER_INTERRUPT_def power_on_def)
qed

section \<open>The main program: lemmas\<close>

lemma port_writes_append [simp]:
  "port_writes (xs @ ys) = port_writes xs @ port_writes ys"
  by (induction xs rule: port_writes.induct) simp_all

lemma port_writes_phase_events [simp]: "port_writes (phase_events cs) = cs"
  by (induction cs) simp_all

lemma length_stateMap: "length stateMap = 6"
  by (simp add: stateMap_def)

lemma send_states_eq:
  "send_states i s =
     (if i < 6 then s\<lparr>PORTB := 4, trace := trace s @ phase_events (drop i stateMap)\<rparr> else s)"
proof (induction i s rule: send_states.induct)
  case (1 i s)
  show ?case
  proof (cases "i < 6")
    case False
    then show ?thesis by (subst send_states.simps) simp
  next
    case True
    let ?s' = "delay_us PULSE_LENGTH (write_PORTB (stateMap ! i) s)"
    have unroll: "send_states i s = send_states (i + 1) ?s'"
      using True by (subst send_states.simps) simp
    have split: "drop i stateMap = stateMap ! i # drop (Suc i) stateMap"
      using True by (simp add: Cons_nth_drop_Suc length_stateMap)
    show ?thesis
    proof (cases "i = 5")
      case True
      then have "send_states (i + 1) ?s' = ?s'"
        by (subst send_states.simps) simp
      with unroll True show ?thesis
        by (simp add: delay_us_def write_PORTB_def stateMap_def)
    next
      case False
      with \<open>i < 6\<close> have "i + 1 < 6" by simp
      with "1.IH" [OF \<open>i < 6\<close>] unroll split show ?thesis
        by (simp add: delay_us_def write_PORTB_def)
    qed
  qed
qed

lemma motor_cycle_eq:
  "motor_cycle s = s\<lparr>PORTB := 0, trace := trace s @ cycle_events\<rparr>"
  by (simp add: motor_cycle_def send_states_eq write_PORTB_def cycle_events_def)

lemma startup_loop_eq:
  "startup_loop j s =
     (if j < 180
      then s\<lparr>PORTB := 0, trace := trace s @ concat (replicate (180 - j) cycle_events)\<rparr>
      else s)"
proof (induction j s rule: startup_loop.induct)
  case (1 j s)
  show ?case
  proof (cases "j < 180")
    case False
    then show ?thesis by (subst startup_loop.simps) simp
  next
    case True
    have unroll: "startup_loop j s = startup_loop (j + 1) (motor_cycle s)"
      using True by (subst startup_loop.simps) simp
    from True have rep: "replicate (180 - j) cycle_events =
        cycle_events # replicate (180 - (j + 1)) cycle_events"
      by (metis Suc_diff_Suc Suc_eq_plus1 replicate_Suc)
    show ?thesis
    proof (cases "j + 1 < 180")
      case True
      with "1.IH" [OF \<open>j < 180\<close>] unroll rep \<open>j < 180\<close> show ?thesis
        by (simp add: motor_cycle_eq)
    next
      case False
      with \<open>j < 180\<close> have "180 - j = Suc 0" by simp
      with "1.IH" [OF \<open>j < 180\<close>] unroll False \<open>j < 180\<close> show ?thesis
        by (simp add: motor_cycle_eq)
    qed
  qed
qed

lemma startup_eq:
  "startup s = s\<lparr>PORTB := 0, trace := trace s @ concat (replicate 180 cycle_events)\<rparr>"
  by (simp add: startup_def startup_loop_eq)

lemma pulse_request_set:
  "send_pulse s \<noteq> 0 \<Longrightarrow>
   pulse_request s =
     s\<lparr>send_pulse := 0, PORTB := 0, trace := trace s @ Flag_write 0 # cycle_events\<rparr>"
  by (simp add: pulse_request_def motor_cycle_eq)

lemma pulse_request_clear: "send_pulse s = 0 \<Longrightarrow> pulse_request s = s"
  by (simp add: pulse_request_def)

lemma power_on_fields:
  "send_pulse power_on = 0" "unaccounted_microseconds power_on = 0"
  "PORTB power_on = 0" "trace power_on = []"
  by (simp_all add: power_on_def)

lemma distinct_stateMap: "distinct stateMap"
  by (simp add: stateMap_def)

lemma port_writes_cycle_events: "port_writes cycle_events = stateMap @ [0]"
  by (simp add: cycle_events_def)

lemma cycle_events_explicit:
  "cycle_events =
     [Port_write 5, Delay_us 3000, Port_write 1, Delay_us 3000, Port_write 3, Delay_us 3000,
      Port_write 2, Delay_us 3000, Port_write 6, Delay_us 3000, Port_write 4, Delay_us 3000,
      Port_write 0]"
  by (simp add: cycle_events_def stateMap_def PULSE_LENGTH_def)

text \<open>
  Claim C5. When the \<open>if\<close> statement of the main loop finds the flag set, it first
  writes 0 to the flag, then writes the six entries of the table to PORTB in the order
  of the table, 5, 1, 3, 2, 6, 4, each once and each followed by \<open>_delay_us(3000)\<close>
  before the next write, and last writes 0 to PORTB. The six entries are distinct.
\<close>
theorem pulse_cycle:
  assumes "send_pulse s \<noteq> 0"
  shows "pulse_request s =
           s\<lparr>send_pulse := 0, PORTB := 0,
             trace := trace s @
               [Flag_write 0,
                Port_write 5, Delay_us 3000, Port_write 1, Delay_us 3000,
                Port_write 3, Delay_us 3000, Port_write 2, Delay_us 3000,
                Port_write 6, Delay_us 3000, Port_write 4, Delay_us 3000,
                Port_write 0]\<rparr>
         \<and> trace (pulse_request s) =
             trace s @ Flag_write 0 # phase_events stateMap @ [Port_write 0]
         \<and> port_writes (trace (pulse_request s)) = port_writes (trace s) @ stateMap @ [0]
         \<and> length stateMap = 6 \<and> distinct stateMap \<and> PULSE_LENGTH = 3000"
proof -
  from assms have eq: "pulse_request s =
      s\<lparr>send_pulse := 0, PORTB := 0, trace := trace s @ Flag_write 0 # cycle_events\<rparr>"
    by (rule pulse_request_set)
  then have "pulse_request s =
           s\<lparr>send_pulse := 0, PORTB := 0,
             trace := trace s @
               [Flag_write 0,
                Port_write 5, Delay_us 3000, Port_write 1, Delay_us 3000,
                Port_write 3, Delay_us 3000, Port_write 2, Delay_us 3000,
                Port_write 6, Delay_us 3000, Port_write 4, Delay_us 3000,
                Port_write 0]\<rparr>"
    by (simp only: cycle_events_explicit)
  moreover from eq have "trace (pulse_request s) =
      trace s @ Flag_write 0 # phase_events stateMap @ [Port_write 0]"
    by (simp add: cycle_events_def)
  moreover from eq have "port_writes (trace (pulse_request s)) =
      port_writes (trace s) @ stateMap @ [0]"
    by (simp add: port_writes_cycle_events)
  ultimately show ?thesis
    by (simp add: length_stateMap distinct_stateMap PULSE_LENGTH_def)
qed

theorem pulse_cycle_witness:
  "send_pulse (power_on\<lparr>send_pulse := 1\<rparr>) \<noteq> 0
   \<and> trace (pulse_request (power_on\<lparr>send_pulse := 1\<rparr>)) =
       [Flag_write 0,
        Port_write 5, Delay_us 3000, Port_write 1, Delay_us 3000,
        Port_write 3, Delay_us 3000, Port_write 2, Delay_us 3000,
        Port_write 6, Delay_us 3000, Port_write 4, Delay_us 3000,
        Port_write 0]
   \<and> send_pulse (pulse_request (power_on\<lparr>send_pulse := 1\<rparr>)) = 0
   \<and> PORTB (pulse_request (power_on\<lparr>send_pulse := 1\<rparr>)) = 0"
  using pulse_cycle [of "power_on\<lparr>send_pulse := 1\<rparr>"]
  by (simp add: power_on_def)

text \<open>
  Claim C7. When the flag is clear, the \<open>if\<close> statement changes nothing: the pass
  through the loop reaches \<open>sleep_mode\<close> with the flag, PORTB, the accumulator and the
  list of port writes as they were; the only event of the pass is the call of
  \<open>sleep_mode\<close>.
\<close>
theorem idle_wake:
  assumes "send_pulse s = 0"
  shows "pulse_request s = s
         \<and> enter_sleep (pulse_request s) = s\<lparr>trace := trace s @ [Sleep]\<rparr>
         \<and> port_writes (trace (enter_sleep (pulse_request s))) = port_writes (trace s)
         \<and> PORTB (enter_sleep (pulse_request s)) = PORTB s
         \<and> send_pulse (enter_sleep (pulse_request s)) = send_pulse s
         \<and> unaccounted_microseconds (enter_sleep (pulse_request s)) = unaccounted_microseconds s
         \<and> loop_body wake s = wake (s\<lparr>trace := trace s @ [Sleep]\<rparr>)"
  using assms by (simp add: pulse_request_clear enter_sleep_def loop_body_def sleep_mode_def)

theorem idle_wake_witness:
  "send_pulse power_on = 0
   \<and> pulse_request power_on = power_on
   \<and> trace (enter_sleep (pulse_request power_on)) = [Sleep]
   \<and> port_writes (trace (enter_sleep (pulse_request power_on))) = []
   \<and> PORTB (enter_sleep (pulse_request power_on)) = 0"
proof -
  have z: "send_pulse power_on = 0" by (simp add: power_on_fields)
  from idle_wake [OF z, where wake = id]
  have "pulse_request power_on = power_on"
    and "enter_sleep (pulse_request power_on) = power_on\<lparr>trace := trace power_on @ [Sleep]\<rparr>"
    by blast+
  then show ?thesis by (simp add: power_on_fields)
qed

text \<open>
  Claim C6, as amended. On a pass through the loop with the flag set, the program clears
  the flag first, then sends one cycle of the six states followed by the all-off write,
  and then calls \<open>sleep_mode\<close>; it enters the sleep with the flag clear and PORTB at 0.
\<close>
theorem clear_then_cycle:
  assumes "send_pulse s \<noteq> 0"
  shows "trace (enter_sleep (pulse_request s)) =
           trace s @ [Flag_write 0] @ cycle_events @ [Sleep]
         \<and> port_writes cycle_events = stateMap @ [0]
         \<and> send_pulse (enter_sleep (pulse_request s)) = 0
         \<and> PORTB (enter_sleep (pulse_request s)) = 0
         \<and> loop_body wake s = wake (enter_sleep (pulse_request s))"
  using assms
  by (simp add: pulse_request_set enter_sleep_def loop_body_def sleep_mode_def
      port_writes_cycle_events)

theorem clear_then_cycle_witness:
  "send_pulse (power_on\<lparr>send_pulse := 1\<rparr>) \<noteq> 0
   \<and> trace (enter_sleep (pulse_request (power_on\<lparr>send_pulse := 1\<rparr>))) =
       Flag_write 0 # cycle_events @ [Sleep]
   \<and> send_pulse (enter_sleep (pulse_request (power_on\<lparr>send_pulse := 1\<rparr>))) = 0"
  using clear_then_cycle [where s = "power_on\<lparr>send_pulse := 1\<rparr>" and wake = id]
  by (simp add: power_on_def)

text \<open>
  Claim C6 as stated has the flag cleared after the cycle. In the code no port write
  comes before the clearing of the flag; all seven come after it.
\<close>

theorem clear_after_cycle_counterexample:
  "send_pulse (power_on\<lparr>send_pulse := 1\<rparr>) \<noteq> 0
   \<and> port_writes (before_clear (trace (pulse_request (power_on\<lparr>send_pulse := 1\<rparr>)))) = []
   \<and> port_writes (before_clear (trace (pulse_request (power_on\<lparr>send_pulse := 1\<rparr>)))) \<noteq> stateMap
   \<and> port_writes (after_clear (trace (pulse_request (power_on\<lparr>send_pulse := 1\<rparr>)))) =
       [5, 1, 3, 2, 6, 4, 0]"
  by (simp add: pulse_request_set power_on_def before_clear_def after_clear_def
      port_writes_cycle_events stateMap_def)

lemma phase_applications_append:
  "phase_applications (xs @ ys) = phase_applications xs + phase_applications ys"
  by (simp add: phase_applications_def)

lemma phase_applications_cycle: "phase_applications cycle_events = 6"
  by (simp add: phase_applications_def port_writes_cycle_events stateMap_def)

lemma phase_applications_cycles:
  "phase_applications (concat (replicate n cycle_events)) = 6 * n"
  by (induction n) (simp_all add: phase_applications_append phase_applications_cycle,
      simp add: phase_applications_def)

lemma flag_clears_append:
  "flag_clears (xs @ ys) = flag_clears xs + flag_clears ys"
  by (simp add: flag_clears_def)

lemma flag_clears_cycle: "flag_clears cycle_events = 0"
  by (simp add: flag_clears_def cycle_events_explicit)

lemma no_sleep_in_cycles: "Sleep \<notin> set (concat (replicate n cycle_events))"
  by (induction n) (simp_all add: cycle_events_explicit)

lemma timer0_ovf_trace:
  "trace (timer0_ovf tick target s) =
     trace s @ (if fires tick target s then [Flag_write 1] else [])"
  by (simp add: timer0_ovf_def fires_def Let_def)

text \<open>One pass of the loop, woken by the handler: what it adds to the trace.\<close>

lemma loop_body_trace:
  "trace (loop_body (timer0_ovf tick target) s) =
     trace s @ (if send_pulse s \<noteq> 0 then Flag_write 0 # cycle_events else []) @ [Sleep]
       @ (if fires tick target (enter_sleep (pulse_request s)) then [Flag_write 1] else [])"
  by (simp add: loop_body_def sleep_mode_def timer0_ovf_trace enter_sleep_def
      pulse_request_set pulse_request_clear)

lemma loop_body_phase_applications:
  "phase_applications (trace (loop_body (timer0_ovf tick target) s)) =
     phase_applications (trace s) + (if send_pulse s \<noteq> 0 then 6 else 0)"
proof -
  have one: "phase_applications (e # evs) = phase_applications evs"
    if "e = Sleep \<or> e = Flag_write 0 \<or> e = Flag_write 1" for e evs
    using that by (auto simp add: phase_applications_def)
  have nil: "phase_applications [] = 0" by (simp add: phase_applications_def)
  show ?thesis
    by (simp add: loop_body_trace phase_applications_append one nil phase_applications_cycle)
qed

lemma loop_body_flag_clears:
  "flag_clears (trace (loop_body (timer0_ovf tick target) s)) =
     flag_clears (trace s) + (if send_pulse s \<noteq> 0 then 1 else 0)"
proof -
  have c: "flag_clears (e # evs) = (if e = Flag_write 0 then 1 else 0) + flag_clears evs"
    for e evs
    by (simp add: flag_clears_def)
  have o: "flag_clears [] = 0"
    by (simp add: flag_clears_def)
  show ?thesis
    by (simp add: loop_body_trace flag_clears_append c o flag_clears_cycle)
qed

lemma loop_body_port_writes:
  "port_writes (trace (loop_body (timer0_ovf tick target) s)) =
     port_writes (trace s) @ (if send_pulse s \<noteq> 0 then stateMap @ [0] else [])"
  by (simp add: loop_body_trace port_writes_cycle_events)

lemma main_loop_extends:
  "\<exists>evs. trace (main_loop (timer0_ovf tick target) n s) = trace s @ evs"
proof (induction n arbitrary: s)
  case 0
  show ?case by simp
next
  case (Suc n)
  from Suc.IH [of "loop_body (timer0_ovf tick target) s"]
  obtain evs where "trace (main_loop (timer0_ovf tick target) (Suc n) s) =
      trace (loop_body (timer0_ovf tick target) s) @ evs"
    by auto
  then show ?case by (simp add: loop_body_trace)
qed

lemma main_loop_balance:
  "phase_applications (trace (main_loop (timer0_ovf tick target) n s)) + 6 * flag_clears (trace s) =
   phase_applications (trace s) + 6 * flag_clears (trace (main_loop (timer0_ovf tick target) n s))"
proof (induction n arbitrary: s)
  case 0
  show ?case by simp
next
  case (Suc n)
  from Suc.IH [of "loop_body (timer0_ovf tick target) s"]
  show ?case
    by (simp add: loop_body_phase_applications loop_body_flag_clears split: if_splits)
qed

lemma main_loop_port_writes:
  "set (port_writes (trace (main_loop (timer0_ovf tick target) n s))) \<subseteq>
     set (port_writes (trace s)) \<union> insert 0 (set stateMap)"
proof (induction n arbitrary: s)
  case 0
  show ?case by auto
next
  case (Suc n)
  from Suc.IH [of "loop_body (timer0_ovf tick target) s"]
  show ?case
    by (auto simp add: loop_body_port_writes split: if_splits)
qed

lemma main_unfold:
  "main F_CPU n s =
     main_loop (timer0_ovf (word_of_int (MICROSECONDS_PER_INTERRUPT F_CPU)) MICROSECONDS_PER_PULSE) n
       (startup s)"
  by (simp add: main_def TIMER0_OVF_vect_def isr_def)

lemma port_writes_cycles:
  "set (port_writes (concat (replicate n cycle_events))) \<subseteq> insert 0 (set stateMap)"
  by (induction n) (auto simp add: port_writes_cycle_events)

text \<open>
  Claim C8. The start-up loop performs 180 motor cycles whatever the flag is: it appends
  180 times the events of one cycle, six phase writes and the all-off write, and leaves
  the flag as it was. Run from power-on, the events of \<open>main\<close> before its first call of
  \<open>sleep_mode\<close> are exactly those, with 1080 phase writes. The start-up is not repeated:
  at any later point the number of phase writes is 1080 plus six for each time the main
  loop cleared the flag.
\<close>
theorem startup_cycles:
  "startup s = s\<lparr>PORTB := 0, trace := trace s @ concat (replicate 180 cycle_events)\<rparr>
   \<and> startup (s\<lparr>send_pulse := f\<rparr>) = (startup s)\<lparr>send_pulse := f\<rparr>
   \<and> port_writes cycle_events = stateMap @ [0]
   \<and> phase_applications cycle_events = 6
   \<and> phase_applications (concat (replicate 180 cycle_events)) = 1080
   \<and> before_first_sleep (trace (main F_CPU (Suc n) power_on)) = concat (replicate 180 cycle_events)
   \<and> phase_applications (before_first_sleep (trace (main F_CPU (Suc n) power_on))) = 1080
   \<and> phase_applications (trace (main F_CPU n power_on)) =
       1080 + 6 * flag_clears (trace (main F_CPU n power_on))"
proof -
  let ?S = "concat (replicate 180 cycle_events)"
  let ?W = "timer0_ovf (word_of_int (MICROSECONDS_PER_INTERRUPT F_CPU)) MICROSECONDS_PER_PULSE"
  have s0: "startup power_on = power_on\<lparr>PORTB := 0, trace := ?S\<rparr>"
    by (simp add: startup_eq power_on_fields)
  have count: "phase_applications ?S = 1080"
    by (simp add: phase_applications_cycles)
  have first: "before_first_sleep (trace (main F_CPU (Suc n) power_on)) = ?S"
  proof -
    have "trace (loop_body ?W (startup power_on)) =
        ?S @ Sleep # (if fires (word_of_int (MICROSECONDS_PER_INTERRUPT F_CPU)) MICROSECONDS_PER_PULSE
          (enter_sleep (pulse_request (startup power_on))) then [Flag_write 1] else [])"
      by (simp add: loop_body_trace s0 power_on_fields)
    moreover obtain evs where
      "trace (main_loop ?W n (loop_body ?W (startup power_on))) =
         trace (loop_body ?W (startup power_on)) @ evs"
      using main_loop_extends by blast
    ultimately obtain rest where "trace (main F_CPU (Suc n) power_on) = ?S @ Sleep # rest"
      by (simp add: main_unfold)
    moreover have "takeWhile (\<lambda>e. e \<noteq> Sleep) (?S @ Sleep # rest) =
        ?S @ takeWhile (\<lambda>e. e \<noteq> Sleep) (Sleep # rest)"
      by (rule takeWhile_append2) (use no_sleep_in_cycles [of 180] in blast)
    ultimately show ?thesis
      by (simp add: before_first_sleep_def)
  qed
  have total: "phase_applications (trace (main F_CPU n power_on)) =
       1080 + 6 * flag_clears (trace (main F_CPU n power_on))"
  proof -
    have fc: "flag_clears (concat (replicate k cycle_events)) = 0" for k
      by (induction k) (simp_all add: flag_clears_append flag_clears_cycle, simp add: flag_clears_def)
    from main_loop_balance [of _ _ n "startup power_on"] show ?thesis
      by (simp add: main_unfold s0 count fc)
  qed
  show ?thesis
    by (simp add: startup_eq port_writes_cycle_events phase_applications_cycle count first total)
qed

lemma pin_mask_value: "pin_mask = 7"
  by (simp add: pin_mask_def BV_def PB0_def PB1_def PB2_def)

lemma stateMap_within_mask: "c \<in> set stateMap \<Longrightarrow> c AND NOT pin_mask = 0 \<and> c AND pin_mask = c"
  by (auto simp add: stateMap_def pin_mask_value)

lemma port_writes_cycles_mem:
  "c \<in> set stateMap \<Longrightarrow> c \<in> set (port_writes (concat (replicate (Suc n) cycle_events)))"
  by (simp add: port_writes_cycle_events)

text \<open>
  Claim C10. Every value \<open>main\<close> writes to PORTB, in the start-up and in any number of
  passes through the loop, is 0 or one of the six entries 5, 1, 3, 2, 6, 4 of the table.
  The entries are distinct, the pin mask is 7 (bits PB0, PB1, PB2), every entry lies
  within the mask, and so no written value has a bit set outside the mask.
\<close>
theorem port_values:
  "set (port_writes (trace (main F_CPU n power_on))) \<subseteq> insert 0 (set stateMap)
   \<and> set stateMap = {0x5, 0x1, 0x3, 0x2, 0x6, 0x4}
   \<and> distinct stateMap
   \<and> pin_mask = 7
   \<and> (\<forall>c \<in> set stateMap. c AND pin_mask = c)
   \<and> (\<forall>v \<in> set (port_writes (trace (main F_CPU n power_on))). v AND NOT pin_mask = 0)"
proof -
  let ?W = "timer0_ovf (word_of_int (MICROSECONDS_PER_INTERRUPT F_CPU)) MICROSECONDS_PER_PULSE"
  have "set (port_writes (trace (startup power_on))) \<subseteq> insert 0 (set stateMap)"
    using port_writes_cycles [of 180] by (simp add: startup_eq power_on_fields)
  with main_loop_port_writes [of _ _ n "startup power_on"]
  have sub: "set (port_writes (trace (main F_CPU n power_on))) \<subseteq> insert 0 (set stateMap)"
    unfolding main_unfold by blast
  have "v AND NOT pin_mask = 0" if "v \<in> set (port_writes (trace (main F_CPU n power_on)))" for v
  proof -
    from that sub have "v = 0 \<or> v \<in> set stateMap" by blast
    then show ?thesis using stateMap_within_mask by auto
  qed
  moreover have "set stateMap = {0x5, 0x1, 0x3, 0x2, 0x6, 0x4}"
    by (simp add: stateMap_def)
  ultimately show ?thesis
    using sub stateMap_within_mask by (simp add: distinct_stateMap pin_mask_value)
qed

theorem port_values_witness:
  "(6 :: uint8_t) \<in> set stateMap
   \<and> (6 :: uint8_t) AND pin_mask = 6
   \<and> (6 :: uint8_t) \<in> set (port_writes (trace (main 32768 0 power_on)))
   \<and> (6 :: uint8_t) AND NOT pin_mask = 0"
proof -
  have a: "(6 :: uint8_t) \<in> set stateMap" by (simp add: stateMap_def)
  have "trace (main 32768 0 power_on) = concat (replicate (Suc 179) cycle_events)"
    by (simp add: main_def startup_eq power_on_fields)
  with port_writes_cycles_mem [OF a, of 179]
  have b: "(6 :: uint8_t) \<in> set (port_writes (trace (main 32768 0 power_on)))"
    by (simp only:)
  from port_values [of 32768 0] a b show ?thesis by blast
qed

end
